theory Spec2Isabelle
  imports Main "HOL-Library.Sublist"
begin

section \<open>Python strings\<close>

text \<open>
  A Python \<open>str\<close> is a sequence of Unicode code points, and \<open>len\<close> counts code points.
  A code point is modelled as a natural number and a string as a list of them, so that
  \<open>length\<close> is Python's \<open>len\<close>. Paths are strings of the same kind.
\<close>

type_synonym pystr = "nat list"

text \<open>An ASCII literal of the source, as code points.\<close>

definition lit :: "string \<Rightarrow> pystr" where
  "lit s = map of_char s"

text \<open>
  \<open>str(n)\<close> for a Python integer, which is what the replacement field \<open>{counter}\<close> of an
  f-string produces: the decimal digits without leading zeros, after a minus sign for a
  negative number.
\<close>

fun str_digits :: "nat \<Rightarrow> pystr" where
  "str_digits n = (if n < 10 then [48 + n] else str_digits (n div 10) @ [48 + n mod 10])"

definition str_int :: "int \<Rightarrow> pystr" where
  "str_int i = (if i < 0 then 45 # str_digits (nat (- i)) else str_digits (nat i))"

text \<open>\<open>sep.join(parts)\<close>.\<close>

fun str_join :: "pystr \<Rightarrow> pystr list \<Rightarrow> pystr" where
  "str_join sep [] = []"
| "str_join sep [x] = x"
| "str_join sep (x # y # ys) = x @ sep @ str_join sep (y # ys)"

section \<open>Module constants\<close>

definition ESC :: nat where
  "ESC = 27"

definition WHITE :: pystr where
  "WHITE = ESC # lit ''[97m''"

definition CYAN :: pystr where
  "CYAN = ESC # lit ''[96m''"

definition MAGENTA :: pystr where
  "MAGENTA = ESC # lit ''[95m''"

definition VIOLET :: pystr where
  "VIOLET = ESC # lit ''[38;5;135m''"

definition RED :: pystr where
  "RED = ESC # lit ''[91m''"

definition RESET :: pystr where
  "RESET = ESC # lit ''[0m''"

text \<open>The set literal \<open>INVISIBLE_CHARS\<close>, entry by entry in the order of the source.\<close>

definition INVISIBLE_CHARS :: "nat set" where
  "INVISIBLE_CHARS =
     {0x00A0, 0x2007, 0x202F, 0x200B, 0x200C, 0x200D, 0x2060, 0xFEFF, 0x180E,
      0x2061, 0x2062, 0x2063, 0x2064, 0x034F, 0x115F, 0x1160, 0x3164, 0xFFA0}"

text \<open>
  For comparison with the source: the code points that fall under the categories which
  the specification's data model names (no-break spaces \<open>U+00A0\<close> and \<open>U+202F\<close>,
  zero-width joiner and non-joiner, word joiner, BOM, the four invisible math operators,
  combining grapheme joiner, the four Hangul fillers).
\<close>

definition spec_named_denylist :: "nat set" where
  "spec_named_denylist =
     {0x00A0, 0x202F, 0x200C, 0x200D, 0x2060, 0xFEFF,
      0x2061, 0x2062, 0x2063, 0x2064, 0x034F, 0x115F, 0x1160, 0x3164, 0xFFA0}"

section \<open>The filter\<close>

text \<open>
  The two passes of \<open>scrub_invisible\<close> over the content that was read:
  \<^verbatim>\<open>cleaned = ''.join(c for c in content if c not in INVISIBLE_CHARS)\<close> and
  \<^verbatim>\<open>removed_count = sum(1 for c in content if c in INVISIBLE_CHARS)\<close>.
  Iterating over a string yields its characters as one-character strings.
\<close>

definition cleaned :: "pystr \<Rightarrow> pystr" where
  "cleaned content = str_join [] [[c]. c \<leftarrow> content, c \<notin> INVISIBLE_CHARS]"

definition removed_count :: "pystr \<Rightarrow> int" where
  "removed_count content = sum_list [1. c \<leftarrow> content, c \<in> INVISIBLE_CHARS]"

section \<open>The filesystem and the console\<close>

text \<open>
  The program reaches the outside world through \<open>os.path.isfile\<close>, \<open>os.path.exists\<close>,
  \<open>open\<close> for reading and for writing, and \<open>print\<close>. The world is the filesystem
  namespace, a map from paths to entries, the encoding of the console, and the trace of
  the calls made so far, in order.

  An entry is a regular file, a symbolic link, or anything else (a directory, a device).
  A regular file holds the text that \<open>f.read()\<close> returns, or is unreadable (no
  permission, not valid UTF-8), in which case opening or reading it raises. A symbolic
  link holds the path it points to; that path may have no entry (a dangling link).
  Hard links, by which two names share one regular file, are not represented, and no
  other process changes the filesystem during a run.
\<close>

datatype file_data = Text pystr | Unreadable

datatype node = RegularFile file_data | OtherEntry | Link pystr

text \<open>
  What opening a path with mode \<open>'w'\<close> and writing to it does, once the path has been
  resolved: it succeeds, or \<open>open\<close> raises and nothing is created, or the file is created
  and the write raises, leaving some partial text behind.
\<close>

datatype write_outcome = Written | OpenRefused | Interrupted pystr

datatype event =
    IsFile pystr
  | Exists pystr
  | OpenRead pystr
  | OpenWrite pystr
  | Print pystr

datatype error = IOFailure | UnicodeEncodeError

record world =
  entries :: "pystr \<rightharpoonup> node"
  on_write :: "pystr \<Rightarrow> write_outcome"
  stdout_encodes :: "nat \<Rightarrow> bool"
  trace :: "event list"

definition log :: "event \<Rightarrow> world \<Rightarrow> world" where
  "log e w = w\<lparr>trace := trace w @ [e]\<rparr>"

text \<open>
  Path resolution, as \<open>stat\<close> and \<open>open\<close> do it: symbolic links are followed, at most
  \<open>MAXSYMLINKS\<close> of them, after which the call fails. \<open>follow n fs p\<close> is the path reached
  from \<open>p\<close>, which is not a link but need not have an entry, and \<open>os_stat fs p\<close> is the
  entry found there, if any.
\<close>

definition MAXSYMLINKS :: nat where
  "MAXSYMLINKS = 40"

primrec follow :: "nat \<Rightarrow> (pystr \<rightharpoonup> node) \<Rightarrow> pystr \<Rightarrow> pystr option" where
  "follow 0 fs p = (case fs p of Some (Link t) \<Rightarrow> None | _ \<Rightarrow> Some p)"
| "follow (Suc n) fs p = (case fs p of Some (Link t) \<Rightarrow> follow n fs t | _ \<Rightarrow> Some p)"

definition os_stat :: "(pystr \<rightharpoonup> node) \<Rightarrow> pystr \<Rightarrow> node option" where
  "os_stat fs p = (case follow MAXSYMLINKS fs p of None \<Rightarrow> None | Some q \<Rightarrow> fs q)"

text \<open>
  \<open>os.path.exists\<close> and \<open>os.path.isfile\<close> are \<open>stat\<close> with its failure caught: a dangling
  link does not exist for them, and a link to a regular file is a file.
\<close>

definition os_path_exists :: "pystr \<Rightarrow> world \<Rightarrow> bool \<times> world" where
  "os_path_exists p w = (os_stat (entries w) p \<noteq> None, log (Exists p) w)"

definition os_path_isfile :: "pystr \<Rightarrow> world \<Rightarrow> bool \<times> world" where
  "os_path_isfile p w =
     ((case os_stat (entries w) p of Some (RegularFile d) \<Rightarrow> True | _ \<Rightarrow> False),
      log (IsFile p) w)"

text \<open>\<^verbatim>\<open>with open(p, 'r', encoding='utf-8') as f: content = f.read()\<close>\<close>

definition read_text :: "pystr \<Rightarrow> world \<Rightarrow> (error + pystr) \<times> world" where
  "read_text p w =
     ((case os_stat (entries w) p of Some (RegularFile (Text t)) \<Rightarrow> Inr t | _ \<Rightarrow> Inl IOFailure),
      log (OpenRead p) w)"

text \<open>
  \<^verbatim>\<open>with open(p, 'w', encoding='utf-8') as f: f.write(t)\<close>. The path is resolved first:
  through a dangling link the file is created at the path the link points to. Opening
  fails when resolution fails or ends at something that is not a regular file.
\<close>

definition write_text :: "pystr \<Rightarrow> pystr \<Rightarrow> world \<Rightarrow> (error + unit) \<times> world" where
  "write_text p t w =
     (case follow MAXSYMLINKS (entries w) p of
        None \<Rightarrow> (Inl IOFailure, log (OpenWrite p) w)
      | Some q \<Rightarrow>
          (case entries w q of
             Some OtherEntry \<Rightarrow> (Inl IOFailure, log (OpenWrite p) w)
           | _ \<Rightarrow>
              (case on_write w p of
                 Written \<Rightarrow>
                   (Inr (),
                    log (OpenWrite p) (w\<lparr>entries := (entries w)(q \<mapsto> RegularFile (Text t))\<rparr>))
               | OpenRefused \<Rightarrow>
                   (Inl IOFailure, log (OpenWrite p) w)
               | Interrupted part \<Rightarrow>
                   (Inl IOFailure,
                    log (OpenWrite p)
                      (w\<lparr>entries := (entries w)(q \<mapsto> RegularFile (Text part))\<rparr>)))))"

text \<open>
  \<open>print(s)\<close> on a console that is open. The text is encoded first, and a character that
  the console's encoding does not have raises \<open>UnicodeEncodeError\<close> before anything of
  \<open>s\<close> is written. Which characters the encoding has is a parameter of the world, except
  that ASCII is always there.
\<close>

definition encodable :: "world \<Rightarrow> pystr \<Rightarrow> bool" where
  "encodable w s = list_all (\<lambda>c. c < 128 \<or> stdout_encodes w c) s"

definition print :: "pystr \<Rightarrow> world \<Rightarrow> (error + unit) \<times> world" where
  "print s w = (if encodable w s then (Inr (), log (Print s) w) else (Inl UnicodeEncodeError, w))"

text \<open>The paths that a trace opened for writing, in order.\<close>

fun written_paths :: "event list \<Rightarrow> pystr list" where
  "written_paths [] = []"
| "written_paths (OpenWrite p # es) = p # written_paths es"
| "written_paths (e # es) = written_paths es"

text \<open>Whether an event touches the filesystem at all.\<close>

fun is_file_io :: "event \<Rightarrow> bool" where
  "is_file_io (Print s) = False"
| "is_file_io e = True"

section \<open>The unique path resolver\<close>

text \<open>
  The \<open>while True\<close> loop of \<open>get_unique_filename\<close>. It returns only when a probe finds a
  free candidate, so it is a partial function: \<open>None\<close> stands for the loop that never
  returns.
\<close>

partial_function (option)
  get_unique_filename_loop :: "pystr \<Rightarrow> int \<Rightarrow> world \<Rightarrow> (pystr \<times> world) option"
where
  "get_unique_filename_loop base_path counter w =
     (let new_path = base_path @ lit ''.'' @ str_int counter;
          (found, w1) = os_path_exists new_path w
      in if \<not> found then Some (new_path, w1)
         else get_unique_filename_loop base_path (counter + 1) w1)"

definition get_unique_filename :: "pystr \<Rightarrow> world \<Rightarrow> (pystr \<times> world) option" where
  "get_unique_filename base_path w =
     (let (found, w1) = os_path_exists base_path w
      in if \<not> found then Some (base_path, w1)
         else get_unique_filename_loop base_path 1 w1)"

section \<open>The pipeline\<close>

definition error_message :: "pystr \<Rightarrow> pystr" where
  "error_message file_path =
     RED @ lit ''Error: '' @ [39] @ CYAN @ file_path @ RED @ [39] @ lit '' does not exist.'' @ RESET"

definition original_message :: "pystr \<Rightarrow> pystr" where
  "original_message content =
     RED @ lit ''Original code block:'' @ RESET @ [10] @ WHITE @ content @ RESET"

definition cleaned_message :: "pystr \<Rightarrow> pystr" where
  "cleaned_message text =
     VIOLET @ lit ''Cleaned code block:'' @ RESET @ [10] @ WHITE @ text @ RESET"

definition total_message :: "int \<Rightarrow> pystr" where
  "total_message n =
     WHITE @ lit ''A total of '' @ MAGENTA @ str_int n @ WHITE
       @ lit '' invisible characters were removed.'' @ RESET"

definition saved_message :: "pystr \<Rightarrow> pystr" where
  "saved_message new_filename =
     WHITE @ lit ''New file saved as: '' @ CYAN @ new_filename @ WHITE @ lit ''.'' @ RESET"

definition usage_message :: pystr where
  "usage_message = lit ''Usage: python scrub_invisible.py <file_path>''"

text \<open>
  \<open>scrub_invisible(file_path)\<close>. The result is \<open>None\<close> when the resolver never returns;
  otherwise it is the outcome, \<open>Inr ()\<close> for a normal return and \<open>Inl\<close> for an exception,
  which nothing in the program catches, with the world as the call left it.
\<close>

definition scrub_invisible :: "pystr \<Rightarrow> world \<Rightarrow> ((error + unit) \<times> world) option" where
  "scrub_invisible file_path w0 =
     (let (is_file, w1) = os_path_isfile file_path w0
      in if \<not> is_file then Some (print (error_message file_path) w1)
         else
           (case read_text file_path w1 of
              (Inl e, w2) \<Rightarrow> Some (Inl e, w2)
            | (Inr content, w2) \<Rightarrow>
                (let base_output = file_path @ lit ''.si''
                 in case get_unique_filename base_output w2 of
                      None \<Rightarrow> None
                    | Some (new_filename, w3) \<Rightarrow>
                        (case write_text new_filename (cleaned content) w3 of
                           (Inl e, w4) \<Rightarrow> Some (Inl e, w4)
                         | (Inr u, w4) \<Rightarrow>
                        (case print (original_message content) w4 of
                           (Inl e, w5) \<Rightarrow> Some (Inl e, w5)
                         | (Inr u, w5) \<Rightarrow>
                        (case print (cleaned_message (cleaned content)) w5 of
                           (Inl e, w6) \<Rightarrow> Some (Inl e, w6)
                         | (Inr u, w6) \<Rightarrow>
                        (case print (total_message (removed_count content)) w6 of
                           (Inl e, w7) \<Rightarrow> Some (Inl e, w7)
                         | (Inr u, w7) \<Rightarrow>
                             Some (print (saved_message new_filename) w7))))))))"

text \<open>The \<open>__main__\<close> block, on \<open>sys.argv\<close> (the program name first).\<close>

definition main :: "pystr list \<Rightarrow> world \<Rightarrow> ((error + unit) \<times> world) option" where
  "main argv w =
     (if length argv \<noteq> 2 then Some (print usage_message w)
      else scrub_invisible (argv ! 1) w)"

section \<open>Auxiliary notions for the statements\<close>

text \<open>
  The candidate \<^verbatim>\<open>f"{base_path}.{counter}"\<close> that the loop probes, and the probes of the
  candidates numbered \<open>i\<close> to \<open>j\<close> in increasing order.
\<close>

definition candidate :: "pystr \<Rightarrow> int \<Rightarrow> pystr" where
  "candidate base_path n = base_path @ lit ''.'' @ str_int n"

definition probes :: "pystr \<Rightarrow> int \<Rightarrow> int \<Rightarrow> event list" where
  "probes base_path i j = map (\<lambda>k. Exists (candidate base_path k)) [i..j]"

text \<open>
  A small filesystem for concrete runs, on a console with strict UTF-8 (everything but
  the surrogates can be printed). The input file \<open>a.txt\<close> holds \<open>A\<close>, a no-break space and
  \<open>B\<close>, and \<open>a.txt.si\<close> and \<open>a.txt.si.1\<close> are taken. The input file \<open>b.txt\<close> holds the
  same text, and \<open>b.txt.si\<close> is a dangling link to \<open>elsewhere.txt\<close>.
\<close>

definition example_world :: world where
  "example_world =
     \<lparr>entries = [lit ''a.txt'' \<mapsto> RegularFile (Text [65, 0x00A0, 66]),
                 lit ''a.txt.si'' \<mapsto> RegularFile (Text [65, 66]),
                 lit ''a.txt.si.1'' \<mapsto> OtherEntry,
                 lit ''b.txt'' \<mapsto> RegularFile (Text [65, 0x00A0, 66]),
                 lit ''b.txt.si'' \<mapsto> Link (lit ''elsewhere.txt'')],
      on_write = (\<lambda>p. Written),
      stdout_encodes = (\<lambda>c. c < 0xD800 \<or> 0xDFFF < c),
      trace = []\<rparr>"

text \<open>The four lines of the summary that a completed run prints, as trace events.\<close>

definition report :: "pystr \<Rightarrow> pystr \<Rightarrow> event list" where
  "report content new_filename =
     [Print (original_message content), Print (cleaned_message (cleaned content)),
      Print (total_message (removed_count content)), Print (saved_message new_filename)]"

text \<open>
  The world after the program has run on \<open>a.txt\<close> in that filesystem: the cleaned text is
  in \<open>a.txt.si.2\<close>, and the trace lists the calls in order.
\<close>

definition example_final :: world where
  "example_final =
     example_world
       \<lparr>entries := (entries example_world)(lit ''a.txt.si.2'' \<mapsto> RegularFile (Text [65, 66])),
        trace :=
          [IsFile (lit ''a.txt''), OpenRead (lit ''a.txt''), Exists (lit ''a.txt.si''),
           Exists (lit ''a.txt.si.1''), Exists (lit ''a.txt.si.2''), OpenWrite (lit ''a.txt.si.2''),
           Print (original_message [65, 0x00A0, 66]), Print (cleaned_message [65, 66]),
           Print (total_message 1), Print (saved_message (lit ''a.txt.si.2''))]\<rparr>"

text \<open>
  The world after the program has run on \<open>b.txt\<close>: the path opened is \<open>b.txt.si\<close>, and
  the cleaned text is in the file that the link points to.
\<close>

definition example_link_final :: world where
  "example_link_final =
     example_world
       \<lparr>entries := (entries example_world)(lit ''elsewhere.txt'' \<mapsto> RegularFile (Text [65, 66])),
        trace :=
          [IsFile (lit ''b.txt''), OpenRead (lit ''b.txt''), Exists (lit ''b.txt.si''),
           OpenWrite (lit ''b.txt.si''),
           Print (original_message [65, 0x00A0, 66]), Print (cleaned_message [65, 66]),
           Print (total_message 1), Print (saved_message (lit ''b.txt.si''))]\<rparr>"

section \<open>Properties of the filter\<close>

lemma str_join_empty_sep: "str_join [] xs = concat xs"
  by (induction "[] :: pystr" xs rule: str_join.induct) simp_all

lemma cleaned_filter: "cleaned S = filter (\<lambda>c. c \<notin> INVISIBLE_CHARS) S"
  unfolding cleaned_def str_join_empty_sep by (induction S) simp_all

lemma removed_count_length:
  "removed_count S = int (length (filter (\<lambda>c. c \<in> INVISIBLE_CHARS) S))"
  unfolding removed_count_def by (induction S) simp_all

lemma cleaned_Nil: "cleaned [] = []"
  by (simp add: cleaned_filter)

lemma removed_count_Nil: "removed_count [] = 0"
  by (simp add: removed_count_length)

lemma cleaned_Cons:
  "cleaned (c # S) = (if c \<in> INVISIBLE_CHARS then cleaned S else c # cleaned S)"
  by (simp add: cleaned_filter)

lemma removed_count_Cons:
  "removed_count (c # S) = (if c \<in> INVISIBLE_CHARS then 1 + removed_count S else removed_count S)"
  by (simp add: removed_count_length)

lemma cleaned_free: "set (cleaned S) \<inter> INVISIBLE_CHARS = {}"
  by (auto simp: cleaned_filter)

lemma length_split: "int (length (cleaned S)) + removed_count S = int (length S)"
  by (induction S) (simp_all add: cleaned_Cons removed_count_Cons cleaned_Nil removed_count_Nil)

lemma cleaned_id: "set S \<inter> INVISIBLE_CHARS = {} \<Longrightarrow> cleaned S = S"
  unfolding cleaned_filter by (rule filter_True) auto

lemma removed_count_zero: "set S \<inter> INVISIBLE_CHARS = {} \<Longrightarrow> removed_count S = 0"
proof -
  assume "set S \<inter> INVISIBLE_CHARS = {}"
  then have "filter (\<lambda>c. c \<in> INVISIBLE_CHARS) S = []"
    by (auto simp: filter_empty_conv)
  then show ?thesis
    by (simp add: removed_count_length)
qed

lemma in_INVISIBLE_CHARS:
  "c \<in> INVISIBLE_CHARS \<longleftrightarrow>
     c = 0x00A0 \<or> c = 0x2007 \<or> c = 0x202F \<or> c = 0x200B \<or> c = 0x200C \<or> c = 0x200D \<or>
     c = 0x2060 \<or> c = 0xFEFF \<or> c = 0x180E \<or> c = 0x2061 \<or> c = 0x2062 \<or> c = 0x2063 \<or>
     c = 0x2064 \<or> c = 0x034F \<or> c = 0x115F \<or> c = 0x1160 \<or> c = 0x3164 \<or> c = 0xFFA0"
  by (simp add: INVISIBLE_CHARS_def)

lemma card_INVISIBLE_CHARS: "card INVISIBLE_CHARS = 18"
  by (simp add: INVISIBLE_CHARS_def)

lemma count_cleaned:
  "count_list (cleaned S) c = (if c \<in> INVISIBLE_CHARS then 0 else count_list S c)"
  by (induction S) (simp_all add: cleaned_Cons cleaned_Nil)

text \<open>
  Claim C1. For every string \<open>S\<close> the cleaned text is the subsequence of \<open>S\<close> made of
  exactly the characters outside the denylist, in their order; the removed count is the
  number of occurrences of denylisted characters; the empty string gives the empty text
  and count 0; a string of denylisted characters only gives the empty text and its own
  length as count; and no character of the cleaned text is denylisted.
\<close>

theorem filter_contract:
  "cleaned S = filter (\<lambda>c. c \<notin> INVISIBLE_CHARS) S
   \<and> subseq (cleaned S) S
   \<and> removed_count S = int (length (filter (\<lambda>c. c \<in> INVISIBLE_CHARS) S))
   \<and> cleaned [] = [] \<and> removed_count [] = 0
   \<and> (set S \<subseteq> INVISIBLE_CHARS \<longrightarrow> cleaned S = [] \<and> removed_count S = int (length S))
   \<and> set (cleaned S) \<inter> INVISIBLE_CHARS = {}"
proof -
  have only: "cleaned S = [] \<and> removed_count S = int (length S)" if "set S \<subseteq> INVISIBLE_CHARS"
  proof -
    from that have "filter (\<lambda>c. c \<notin> INVISIBLE_CHARS) S = []"
      by (auto simp: filter_empty_conv)
    then have "cleaned S = []"
      by (simp add: cleaned_filter)
    with length_split [of S] show ?thesis
      by simp
  qed
  have "subseq (cleaned S) S"
    by (simp add: cleaned_filter)
  with only show ?thesis
    using cleaned_filter removed_count_length cleaned_Nil removed_count_Nil cleaned_free
    by blast
qed

theorem filter_contract_witness:
  "set [0x00A0, 0x200B, 0x200B] \<subseteq> INVISIBLE_CHARS
   \<and> cleaned [0x00A0, 0x200B, 0x200B] = []
   \<and> removed_count [0x00A0, 0x200B, 0x200B] = 3
   \<and> cleaned [65, 0x00A0, 66] = [65, 66]
   \<and> removed_count [65, 0x00A0, 66] = 1"
  using filter_contract [of "[0x00A0, 0x200B, 0x200B]"] filter_contract [of "[65, 0x00A0, 66]"]
  by (simp add: in_INVISIBLE_CHARS)

text \<open>
  Claim C2. For every string \<open>S\<close>, the length of the cleaned text plus the removed
  count is the length of \<open>S\<close>, although the two are computed by separate passes.
\<close>

theorem filter_length_conservation:
  "int (length (cleaned S)) + removed_count S = int (length S)"
  by (rule length_split)

text \<open>
  Claim C6. The filter is the identity on strings without denylisted characters, with
  count 0, and it is idempotent: filtering a cleaned text again returns it unchanged,
  with count 0.
\<close>

theorem filter_identity_idempotent:
  "(set S \<inter> INVISIBLE_CHARS = {} \<longrightarrow> cleaned S = S \<and> removed_count S = 0)
   \<and> cleaned (cleaned S) = cleaned S \<and> removed_count (cleaned S) = 0"
  using cleaned_id [of S] removed_count_zero [of S]
    cleaned_id [OF cleaned_free] removed_count_zero [OF cleaned_free]
  by blast

theorem filter_identity_idempotent_witness:
  "set (lit ''hello world'') \<inter> INVISIBLE_CHARS = {}
   \<and> cleaned (lit ''hello world'') = lit ''hello world''
   \<and> removed_count (lit ''hello world'') = 0"
proof -
  have free: "set (lit ''hello world'') \<inter> INVISIBLE_CHARS = {}"
    by (simp add: lit_def in_INVISIBLE_CHARS)
  with filter_identity_idempotent [of "lit ''hello world''"] show ?thesis
    by blast
qed

text \<open>
  Claim C9. The denylist is a fixed set of exactly 18 code points. It contains \<open>U+180E\<close>,
  \<open>U+200B\<close> and \<open>U+2007\<close>, and these three are exactly the members outside the
  categories the specification names. The filter removes every occurrence of a member
  and leaves the occurrences of every other character as they are.
\<close>

theorem denylist_eighteen:
  "card INVISIBLE_CHARS = 18
   \<and> 0x180E \<in> INVISIBLE_CHARS \<and> 0x200B \<in> INVISIBLE_CHARS \<and> 0x2007 \<in> INVISIBLE_CHARS
   \<and> INVISIBLE_CHARS - spec_named_denylist = {0x2007, 0x200B, 0x180E}
   \<and> count_list (cleaned S) c = (if c \<in> INVISIBLE_CHARS then 0 else count_list S c)"
proof -
  have "INVISIBLE_CHARS - spec_named_denylist = {0x2007, 0x200B, 0x180E}"
    unfolding INVISIBLE_CHARS_def spec_named_denylist_def by (simp add: insert_Diff_if)
  then show ?thesis
    using card_INVISIBLE_CHARS count_cleaned [of S c] by (simp add: in_INVISIBLE_CHARS)
qed

theorem denylist_eighteen_witness:
  "count_list (cleaned [0x180E, 65, 0x200B, 65, 0x2007, 0x180E]) 0x180E = 0
   \<and> count_list (cleaned [0x180E, 65, 0x200B, 65, 0x2007, 0x180E]) 65 = 2"
  using denylist_eighteen [of "[0x180E, 65, 0x200B, 65, 0x2007, 0x180E]" "0x180E"]
    denylist_eighteen [of "[0x180E, 65, 0x200B, 65, 0x2007, 0x180E]" 65]
  by (simp add: in_INVISIBLE_CHARS)

section \<open>Properties of path resolution\<close>

lemma follow_unfold:
  "follow n fs p =
     (case fs p of
        Some (Link t) \<Rightarrow> (if n = 0 then None else follow (n - 1) fs t)
      | _ \<Rightarrow> Some p)"
  by (cases n) (auto split: option.splits node.splits)

lemma os_stat_unfold:
  "os_stat fs p =
     (case fs p of
        Some (Link t) \<Rightarrow> (case follow (MAXSYMLINKS - 1) fs t of None \<Rightarrow> None | Some q \<Rightarrow> fs q)
      | e \<Rightarrow> e)"
  unfolding os_stat_def by (subst follow_unfold) (auto simp: MAXSYMLINKS_def split: option.splits node.splits)

lemmas example_eval = example_world_def lit_def os_stat_unfold follow_unfold MAXSYMLINKS_def

lemma follow_not_link: "follow n fs p = Some q \<Longrightarrow> fs q \<noteq> Some (Link t)"
  by (induction n arbitrary: p) (auto split: option.splits node.splits)

lemma follow_create:
  assumes "fs t = None" and "follow n fs p = Some q"
  shows "follow n (fs(t \<mapsto> RegularFile d)) p = Some q"
  using assms
proof (induction n arbitrary: p)
  case 0
  then show ?case
    by (cases "p = t") (auto split: option.splits node.splits)
next
  case (Suc n)
  then show ?case
    by (cases "p = t") (auto split: option.splits node.splits)
qed

lemma os_stat_create_same:
  assumes "fs t = None" and "follow MAXSYMLINKS fs p = Some t"
  shows "os_stat (fs(t \<mapsto> RegularFile d)) p = Some (RegularFile d)"
  using follow_create [OF assms, of d] by (simp add: os_stat_def)

lemma os_stat_create_other:
  assumes "fs t = None" and "os_stat fs p \<noteq> None"
  shows "os_stat (fs(t \<mapsto> RegularFile d)) p = os_stat fs p"
proof -
  from assms(2) obtain q where q: "follow MAXSYMLINKS fs p = Some q" and "fs q \<noteq> None"
    by (auto simp: os_stat_def split: option.splits)
  with assms(1) have "q \<noteq> t"
    by auto
  with follow_create [OF assms(1) q, of d] q show ?thesis
    by (simp add: os_stat_def)
qed

lemma os_stat_entry: "os_stat fs p \<noteq> None \<Longrightarrow> fs p \<noteq> None"
  unfolding os_stat_def by (subst (asm) follow_unfold) (auto split: option.splits node.splits)

section \<open>Properties of the resolver\<close>

lemma entries_log [simp]: "entries (log e w) = entries w"
  by (simp add: log_def)

lemma on_write_log [simp]: "on_write (log e w) = on_write w"
  by (simp add: log_def)

lemma trace_log [simp]: "trace (log e w) = trace w @ [e]"
  by (simp add: log_def)

lemma loop_unfold:
  "get_unique_filename_loop b c w =
     (if os_stat (entries w) (candidate b c) = None then Some (candidate b c, log (Exists (candidate b c)) w)
      else get_unique_filename_loop b (c + 1) (log (Exists (candidate b c)) w))"
  by (subst get_unique_filename_loop.simps) (simp add: candidate_def os_path_exists_def Let_def)

lemma loop_finds:
  assumes "c \<le> N" and "os_stat (entries w) (candidate b N) = None"
    and "\<forall>k. c \<le> k \<and> k < N \<longrightarrow> os_stat (entries w) (candidate b k) \<noteq> None"
  shows "get_unique_filename_loop b c w = Some (candidate b N, w\<lparr>trace := trace w @ probes b c N\<rparr>)"
  using assms
proof (induction "nat (N - c)" arbitrary: c w)
  case 0
  then have "c = N" by simp
  with 0 show ?case
    by (subst loop_unfold) (simp add: probes_def log_def)
next
  case (Suc d)
  then have lt: "c < N" by linarith
  with Suc.prems have taken: "os_stat (entries w) (candidate b c) \<noteq> None" by simp
  let ?w = "log (Exists (candidate b c)) w"
  have "get_unique_filename_loop b (c + 1) ?w
        = Some (candidate b N, ?w\<lparr>trace := trace ?w @ probes b (c + 1) N\<rparr>)"
    using Suc.hyps(2) Suc.prems lt by (intro Suc.hyps(1)) auto
  moreover have "probes b c N = Exists (candidate b c) # probes b (c + 1) N"
    using lt by (simp add: probes_def upto_rec1 [of c N])
  ultimately show ?case
    using taken by (subst loop_unfold) (auto simp: log_def)
qed

lemma loop_returns:
  assumes "c \<le> N" and "os_stat (entries w) (candidate b N) = None"
  shows "\<exists>r. get_unique_filename_loop b c w = Some r"
  using assms
proof (induction "nat (N - c)" arbitrary: c w)
  case 0
  then have "c = N" by simp
  with 0 show ?case
    by (subst loop_unfold) simp
next
  case (Suc d)
  then have lt: "c < N" by linarith
  show ?case
  proof (cases "os_stat (entries w) (candidate b c) = None")
    case True
    then show ?thesis by (subst loop_unfold) simp
  next
    case False
    have "\<exists>r. get_unique_filename_loop b (c + 1) (log (Exists (candidate b c)) w) = Some r"
      using Suc.hyps(2) Suc.prems lt by (intro Suc.hyps(1)) auto
    with False show ?thesis by (subst loop_unfold) simp
  qed
qed

lemma loop_result:
  assumes "get_unique_filename_loop b c w = Some r"
  shows "\<exists>N\<ge>c. os_stat (entries w) (candidate b N) = None
            \<and> (\<forall>k. c \<le> k \<and> k < N \<longrightarrow> os_stat (entries w) (candidate b k) \<noteq> None)
            \<and> r = (candidate b N, w\<lparr>trace := trace w @ probes b c N\<rparr>)"
proof (rule get_unique_filename_loop.raw_induct
    [where P = "\<lambda>b c w r. \<exists>N\<ge>c. os_stat (entries w) (candidate b N) = None
            \<and> (\<forall>k. c \<le> k \<and> k < N \<longrightarrow> os_stat (entries w) (candidate b k) \<noteq> None)
            \<and> r = (candidate b N, w\<lparr>trace := trace w @ probes b c N\<rparr>)", OF _ assms], goal_cases)
  case (1 loop b c w r)
  show ?case
  proof (cases "os_stat (entries w) (candidate b c) = None")
    case True
    with 1(2) have "r = (candidate b c, w\<lparr>trace := trace w @ probes b c c\<rparr>)"
      by (auto simp: candidate_def os_path_exists_def Let_def probes_def log_def)
    with True show ?thesis
      by (intro exI [of _ c]) auto
  next
    case False
    let ?w = "log (Exists (candidate b c)) w"
    from False 1(2) have "loop b (c + 1) ?w = Some r"
      by (auto simp: candidate_def os_path_exists_def Let_def)
    from 1(1) [OF this] obtain N where N: "c + 1 \<le> N" "os_stat (entries w) (candidate b N) = None"
      "\<forall>k. c + 1 \<le> k \<and> k < N \<longrightarrow> os_stat (entries w) (candidate b k) \<noteq> None"
      "r = (candidate b N, ?w\<lparr>trace := trace ?w @ probes b (c + 1) N\<rparr>)"
      by auto
    have "probes b c N = Exists (candidate b c) # probes b (c + 1) N"
      using N(1) by (simp add: probes_def upto_rec1 [of c N])
    with N(4) have r: "r = (candidate b N, w\<lparr>trace := trace w @ probes b c N\<rparr>)"
      by (simp add: log_def)
    have "\<forall>k. c \<le> k \<and> k < N \<longrightarrow> os_stat (entries w) (candidate b k) \<noteq> None"
    proof (intro allI impI)
      fix k assume k: "c \<le> k \<and> k < N"
      show "os_stat (entries w) (candidate b k) \<noteq> None"
      proof (cases "k = c")
        case True
        with False show ?thesis by simp
      next
        case False
        with k N(3) show ?thesis by simp
      qed
    qed
    with N(1,2) r show ?thesis
      by (intro exI [of _ N]) simp
  qed
qed

lemma written_paths_append: "written_paths (xs @ ys) = written_paths xs @ written_paths ys"
  by (induction xs rule: written_paths.induct) simp_all

lemma written_paths_probes: "written_paths (probes b i j) = []"
proof -
  have "written_paths (map (\<lambda>k. Exists (candidate b k)) ks) = []" for ks
    by (induction ks) simp_all
  then show ?thesis
    by (simp add: probes_def)
qed

lemma get_unique_filename_free:
  "os_stat (entries w) P = None \<Longrightarrow> get_unique_filename P w = Some (P, log (Exists P) w)"
  by (simp add: get_unique_filename_def os_path_exists_def)

lemma get_unique_filename_taken:
  "os_stat (entries w) P \<noteq> None \<Longrightarrow>
     get_unique_filename P w = get_unique_filename_loop P 1 (log (Exists P) w)"
  by (auto simp: get_unique_filename_def os_path_exists_def)

lemma get_unique_filename_result:
  assumes "get_unique_filename P w = Some (q, w1)"
  shows "os_stat (entries w) q = None
    \<and> (\<exists>es. w1 = w\<lparr>trace := trace w @ es\<rparr> \<and> written_paths es = [])
    \<and> (os_stat (entries w) P = None \<and> q = P
       \<or> os_stat (entries w) P \<noteq> None \<and> (\<exists>N\<ge>1. q = candidate P N
            \<and> (\<forall>k. 1 \<le> k \<and> k < N \<longrightarrow> os_stat (entries w) (candidate P k) \<noteq> None)))"
proof (cases "os_stat (entries w) P = None")
  case True
  with assms have "q = P" "w1 = w\<lparr>trace := trace w @ [Exists P]\<rparr>"
    by (auto simp: get_unique_filename_free log_def)
  with True show ?thesis
    by (auto intro: exI [of _ "[Exists P]"])
next
  case False
  let ?w = "log (Exists P) w"
  from False assms have "get_unique_filename_loop P 1 ?w = Some (q, w1)"
    by (simp add: get_unique_filename_taken)
  from loop_result [OF this] obtain N where N: "1 \<le> N" "os_stat (entries w) (candidate P N) = None"
    "\<forall>k. 1 \<le> k \<and> k < N \<longrightarrow> os_stat (entries w) (candidate P k) \<noteq> None"
    "q = candidate P N" "w1 = ?w\<lparr>trace := trace ?w @ probes P 1 N\<rparr>"
    by auto
  from N(5) have "w1 = w\<lparr>trace := trace w @ Exists P # probes P 1 N\<rparr>"
    by (simp add: log_def)
  moreover have "written_paths (Exists P # probes P 1 N) = []"
    by (simp add: written_paths_probes)
  ultimately have "\<exists>es. w1 = w\<lparr>trace := trace w @ es\<rparr> \<and> written_paths es = []"
    by blast
  with False N(1-4) show ?thesis
    by blast
qed

lemma lit_append: "lit (a @ b) = lit a @ lit b"
  by (simp add: lit_def)

text \<open>
  Claim C3. If no entry exists at the base path \<open>P\<close>, the resolver returns \<open>P\<close>.
  Otherwise it probes \<open>P.1\<close>, \<open>P.2\<close>, ... in increasing order and returns \<open>P.N\<close> for the
  smallest positive \<open>N\<close> with no entry at \<open>P.N\<close>; when \<open>P\<close> and \<open>P.1\<close> exist and \<open>P.2\<close>
  does not, it returns \<open>P.2\<close>. An entry exists at a path when \<open>os.path.exists\<close> reports
  one, that is when \<open>os_stat\<close> finds one.
\<close>

theorem get_unique_filename_contract:
  "(os_stat (entries w) P = None \<longrightarrow> get_unique_filename P w = Some (P, log (Exists P) w))
   \<and> (os_stat (entries w) P \<noteq> None \<and> 1 \<le> N \<and> os_stat (entries w) (P @ lit ''.'' @ str_int N) = None
        \<and> (\<forall>k. 1 \<le> k \<and> k < N \<longrightarrow> os_stat (entries w) (P @ lit ''.'' @ str_int k) \<noteq> None)
      \<longrightarrow> get_unique_filename P w =
            Some (P @ lit ''.'' @ str_int N,
                  w\<lparr>trace := trace w @ Exists P # map (\<lambda>k. Exists (P @ lit ''.'' @ str_int k)) [1..N]\<rparr>))
   \<and> (os_stat (entries w) P \<noteq> None \<and> os_stat (entries w) (P @ lit ''.1'') \<noteq> None \<and> os_stat (entries w) (P @ lit ''.2'') = None
      \<longrightarrow> map_option fst (get_unique_filename P w) = Some (P @ lit ''.2''))"
proof -
  have general: "get_unique_filename P w =
            Some (candidate P M, w\<lparr>trace := trace w @ Exists P # probes P 1 M\<rparr>)"
    if "os_stat (entries w) P \<noteq> None" "1 \<le> M" "os_stat (entries w) (candidate P M) = None"
      "\<forall>k. 1 \<le> k \<and> k < M \<longrightarrow> os_stat (entries w) (candidate P k) \<noteq> None" for M
  proof -
    have "get_unique_filename_loop P 1 (log (Exists P) w)
          = Some (candidate P M, (log (Exists P) w)\<lparr>trace := trace (log (Exists P) w) @ probes P 1 M\<rparr>)"
      using that by (intro loop_finds) simp_all
    with that(1) show ?thesis
      by (simp add: get_unique_filename_taken log_def)
  qed
  have two: "map_option fst (get_unique_filename P w) = Some (P @ lit ''.2'')"
    if "os_stat (entries w) P \<noteq> None" "os_stat (entries w) (P @ lit ''.1'') \<noteq> None" "os_stat (entries w) (P @ lit ''.2'') = None"
  proof -
    have c1: "candidate P 1 = P @ lit ''.1''" and c2: "candidate P 2 = P @ lit ''.2''"
      by (simp_all add: candidate_def str_int_def lit_def)
    have "\<forall>k. 1 \<le> k \<and> k < 2 \<longrightarrow> os_stat (entries w) (candidate P k) \<noteq> None"
    proof (intro allI impI)
      fix k :: int assume "1 \<le> k \<and> k < 2"
      then have "k = 1" by linarith
      with that(2) c1 show "os_stat (entries w) (candidate P k) \<noteq> None" by simp
    qed
    with general [of 2] that c2 show ?thesis
      by simp
  qed
  from general [of N] two get_unique_filename_free [of w P] show ?thesis
    unfolding candidate_def probes_def by blast
qed

theorem get_unique_filename_contract_witness:
  "get_unique_filename (lit ''a.txt.si'') example_world =
     Some (lit ''a.txt.si.2'',
           example_world\<lparr>trace := [Exists (lit ''a.txt.si''), Exists (lit ''a.txt.si.1''),
                                    Exists (lit ''a.txt.si.2'')]\<rparr>)
   \<and> get_unique_filename (lit ''b.txt.si'') example_world =
     Some (lit ''b.txt.si'', example_world\<lparr>trace := [Exists (lit ''b.txt.si'')]\<rparr>)"
proof -
  have taken: "os_stat (entries example_world) (lit ''a.txt.si'') \<noteq> None"
    by (simp add: example_eval)
  have free: "os_stat (entries example_world) (lit ''a.txt.si'' @ lit ''.'' @ str_int 2) = None"
    by (simp add: example_eval str_int_def)
  have below: "\<forall>k. 1 \<le> k \<and> k < 2 \<longrightarrow> os_stat (entries example_world) (lit ''a.txt.si'' @ lit ''.'' @ str_int k) \<noteq> None"
  proof (intro allI impI)
    fix k :: int assume "1 \<le> k \<and> k < 2"
    then have "k = 1" by linarith
    then show "os_stat (entries example_world) (lit ''a.txt.si'' @ lit ''.'' @ str_int k) \<noteq> None"
      by (simp add: example_eval str_int_def)
  qed
  have other: "os_stat (entries example_world) (lit ''b.txt.si'') = None"
    by (simp add: example_eval)
  have upto: "[1..2] = [1, 2::int]"
    by (simp add: upto.simps)
  from get_unique_filename_contract [of example_world "lit ''a.txt.si''" 2] taken free below
  have "get_unique_filename (lit ''a.txt.si'') example_world =
     Some (lit ''a.txt.si'' @ lit ''.'' @ str_int 2,
           example_world\<lparr>trace := trace example_world @ Exists (lit ''a.txt.si'')
              # map (\<lambda>k. Exists (lit ''a.txt.si'' @ lit ''.'' @ str_int k)) [1..2]\<rparr>)"
    by simp
  moreover from get_unique_filename_contract [of example_world "lit ''b.txt.si''" 1] other
  have "get_unique_filename (lit ''b.txt.si'') example_world =
     Some (lit ''b.txt.si'', log (Exists (lit ''b.txt.si'')) example_world)"
    by simp
  ultimately show ?thesis
    by (simp add: upto str_int_def lit_def log_def example_world_def)
qed

text \<open>
  Claim C7. The probing loop of the resolver terminates whenever some candidate among
  \<open>P\<close>, \<open>P.1\<close>, \<open>P.2\<close>, ... has no filesystem entry: the resolver then returns a result.
\<close>

theorem get_unique_filename_terminates:
  "os_stat (entries w) P = None \<or> (\<exists>N\<ge>1. os_stat (entries w) (P @ lit ''.'' @ str_int N) = None)
   \<Longrightarrow> \<exists>r. get_unique_filename P w = Some r"
proof (cases "os_stat (entries w) P = None")
  case True
  then show ?thesis
    by (simp add: get_unique_filename_free)
next
  case False
  assume "os_stat (entries w) P = None \<or> (\<exists>N\<ge>1. os_stat (entries w) (P @ lit ''.'' @ str_int N) = None)"
  with False obtain N where "1 \<le> N" "os_stat (entries w) (candidate P N) = None"
    by (auto simp: candidate_def)
  then have "\<exists>r. get_unique_filename_loop P 1 (log (Exists P) w) = Some r"
    by (intro loop_returns [of 1 N]) simp_all
  with False show ?thesis
    by (simp add: get_unique_filename_taken)
qed

theorem get_unique_filename_terminates_witness:
  "\<exists>r. get_unique_filename (lit ''a.txt.si'') example_world = Some r"
proof -
  have "os_stat (entries example_world) (lit ''a.txt.si'' @ lit ''.'' @ str_int 2) = None"
    by (simp add: example_eval str_int_def)
  then have "\<exists>N\<ge>1. os_stat (entries example_world) (lit ''a.txt.si'' @ lit ''.'' @ str_int N) = None"
    by (intro exI [of _ 2]) simp
  then show ?thesis
    by (intro get_unique_filename_terminates) simp
qed

section \<open>Properties of the console\<close>

lemma encodable_append [simp]: "encodable w (a @ b) \<longleftrightarrow> encodable w a \<and> encodable w b"
  by (simp add: encodable_def)

lemma encodable_Cons [simp]:
  "encodable w (c # s) \<longleftrightarrow> (c < 128 \<or> stdout_encodes w c) \<and> encodable w s"
  by (simp add: encodable_def)

lemma encodable_Nil [simp]: "encodable w []"
  by (simp add: encodable_def)

lemma encodable_same_console:
  "stdout_encodes w' = stdout_encodes w \<Longrightarrow> encodable w' s = encodable w s"
  by (simp add: encodable_def)

lemma encodable_log [simp]: "encodable (log e w) s = encodable w s"
  by (simp add: encodable_def log_def)

lemma encodable_colours [simp]:
  "encodable w WHITE" "encodable w CYAN" "encodable w MAGENTA" "encodable w VIOLET"
  "encodable w RED" "encodable w RESET"
  by (simp_all add: WHITE_def CYAN_def MAGENTA_def VIOLET_def RED_def RESET_def ESC_def lit_def)

lemma encodable_str_digits [simp]: "encodable w (str_digits n)"
proof (induction n rule: str_digits.induct)
  case (1 n)
  have "n mod 10 < 10" by simp
  then have "48 + n mod 10 < 128" by linarith
  with 1 show ?case
    by (subst str_digits.simps) (simp del: str_digits.simps)
qed

lemma encodable_str_int [simp]: "encodable w (str_int i)"
  by (simp add: str_int_def del: str_digits.simps)

lemma encodable_error_message [simp]: "encodable w (error_message p) = encodable w p"
  by (simp add: error_message_def lit_def)

lemma encodable_original_message [simp]: "encodable w (original_message s) = encodable w s"
  by (simp add: original_message_def lit_def)

lemma encodable_cleaned_message [simp]: "encodable w (cleaned_message s) = encodable w s"
  by (simp add: cleaned_message_def lit_def)

lemma encodable_total_message [simp]: "encodable w (total_message n)"
  by (simp add: total_message_def lit_def)

lemma encodable_saved_message [simp]: "encodable w (saved_message p) = encodable w p"
  by (simp add: saved_message_def lit_def)

lemma encodable_usage_message [simp]: "encodable w usage_message"
  by (simp add: usage_message_def lit_def)

lemma encodable_cleaned: "encodable w s \<Longrightarrow> encodable w (cleaned s)"
  by (simp add: encodable_def cleaned_filter list_all_iff)

section \<open>Properties of the pipeline\<close>

lemma isfile_iff: "fst (os_path_isfile p w) \<longleftrightarrow> (\<exists>d. os_stat (entries w) p = Some (RegularFile d))"
  by (auto simp: os_path_isfile_def split: option.splits node.splits)

lemma scrub_invalid:
  assumes "\<not> fst (os_path_isfile p w)"
  shows "scrub_invisible p w =
     (if encodable w p
      then Some (Inr (), w\<lparr>trace := trace w @ [IsFile p, Print (error_message p)]\<rparr>)
      else Some (Inl UnicodeEncodeError, w\<lparr>trace := trace w @ [IsFile p]\<rparr>))"
  using assms
  by (auto simp: scrub_invisible_def os_path_isfile_def print_def log_def
      encodable_same_console [of "w\<lparr>trace := t\<rparr>" w for t]
      split: option.splits node.splits)

lemma scrub_unreadable:
  assumes "os_stat (entries w) p = Some (RegularFile Unreadable)"
  shows "scrub_invisible p w =
           Some (Inl IOFailure, w\<lparr>trace := trace w @ [IsFile p, OpenRead p]\<rparr>)"
  using assms by (simp add: scrub_invisible_def os_path_isfile_def read_text_def log_def)

lemma written_paths_report [simp]: "written_paths (report content q) = []"
  by (simp add: report_def)

lemma scrub_text:
  assumes "os_stat (entries w) p = Some (RegularFile (Text content))"
  shows "scrub_invisible p w =
     (case get_unique_filename (p @ lit ''.si'') (w\<lparr>trace := trace w @ [IsFile p, OpenRead p]\<rparr>) of
        None \<Rightarrow> None
      | Some (q, w3) \<Rightarrow>
          (case write_text q (cleaned content) w3 of
             (Inl e, w4) \<Rightarrow> Some (Inl e, w4)
           | (Inr u, w4) \<Rightarrow>
               (if \<not> encodable w4 content then Some (Inl UnicodeEncodeError, w4)
                else if \<not> encodable w4 q
                  then Some (Inl UnicodeEncodeError,
                         w4\<lparr>trace := trace w4 @ butlast (report content q)\<rparr>)
                  else Some (Inr (), w4\<lparr>trace := trace w4 @ report content q\<rparr>))))"
  using assms
  by (auto simp: scrub_invisible_def os_path_isfile_def read_text_def print_def log_def
      report_def Let_def encodable_cleaned
      encodable_same_console [of "w'\<lparr>trace := t\<rparr>" w' for w' t]
      split: option.splits prod.splits sum.splits)

lemma write_text_free:
  assumes "os_stat (entries w) q = None"
  shows "write_text q txt w =
     (case follow MAXSYMLINKS (entries w) q of
        None \<Rightarrow> (Inl IOFailure, log (OpenWrite q) w)
      | Some t \<Rightarrow>
          (case on_write w q of
             Written \<Rightarrow>
               (Inr (), log (OpenWrite q) (w\<lparr>entries := (entries w)(t \<mapsto> RegularFile (Text txt))\<rparr>))
           | OpenRefused \<Rightarrow> (Inl IOFailure, log (OpenWrite q) w)
           | Interrupted part \<Rightarrow>
               (Inl IOFailure,
                log (OpenWrite q) (w\<lparr>entries := (entries w)(t \<mapsto> RegularFile (Text part))\<rparr>))))"
  using assms
  by (auto simp: write_text_def os_stat_def split: option.splits node.splits write_outcome.splits)

lemma follow_free:
  "os_stat fs q = None \<Longrightarrow> follow MAXSYMLINKS fs q = Some t \<Longrightarrow> fs t = None"
  by (simp add: os_stat_def)

lemma scrub_text_result:
  assumes isfile: "os_stat (entries w) p = Some (RegularFile (Text content))"
    and run: "scrub_invisible p w = Some (r, w')"
  shows "\<exists>q es0. os_stat (entries w) q = None \<and> written_paths es0 = []
     \<and> (os_stat (entries w) (p @ lit ''.si'') = None \<and> q = p @ lit ''.si''
        \<or> os_stat (entries w) (p @ lit ''.si'') \<noteq> None \<and> (\<exists>N\<ge>1. q = candidate (p @ lit ''.si'') N
            \<and> (\<forall>k. 1 \<le> k \<and> k < N \<longrightarrow> os_stat (entries w) (candidate (p @ lit ''.si'') k) \<noteq> None)))
     \<and> (r = Inl IOFailure \<and> w' = w\<lparr>trace := trace w @ es0 @ [OpenWrite q]\<rparr>
        \<or> (\<exists>t part. follow MAXSYMLINKS (entries w) q = Some t \<and> entries w t = None
              \<and> r = Inl IOFailure
              \<and> w' = w\<lparr>entries := (entries w)(t \<mapsto> RegularFile (Text part)),
                        trace := trace w @ es0 @ [OpenWrite q]\<rparr>)
        \<or> (\<exists>t es1. follow MAXSYMLINKS (entries w) q = Some t \<and> entries w t = None
              \<and> w' = w\<lparr>entries := (entries w)(t \<mapsto> RegularFile (Text (cleaned content))),
                        trace := trace w @ es0 @ OpenWrite q # es1\<rparr>
              \<and> written_paths es1 = []
              \<and> (r = Inr () \<and> es1 = report content q \<or> r = Inl UnicodeEncodeError)))"
proof -
  let ?w2 = "w\<lparr>trace := trace w @ [IsFile p, OpenRead p]\<rparr>"
  from run obtain q w3 where res: "get_unique_filename (p @ lit ''.si'') ?w2 = Some (q, w3)"
    by (auto simp: scrub_text [OF isfile] split: option.splits)
  from get_unique_filename_result [OF res] obtain es where
    free: "os_stat (entries w) q = None" and w3: "w3 = ?w2\<lparr>trace := trace ?w2 @ es\<rparr>"
    and es: "written_paths es = []"
    and which: "os_stat (entries w) (p @ lit ''.si'') = None \<and> q = p @ lit ''.si''
        \<or> os_stat (entries w) (p @ lit ''.si'') \<noteq> None \<and> (\<exists>N\<ge>1. q = candidate (p @ lit ''.si'') N
            \<and> (\<forall>k. 1 \<le> k \<and> k < N \<longrightarrow> os_stat (entries w) (candidate (p @ lit ''.si'') k) \<noteq> None))"
    by auto
  let ?es0 = "[IsFile p, OpenRead p] @ es"
  have es0: "written_paths ?es0 = []"
    using es by simp
  have w3': "w3 = w\<lparr>trace := trace w @ ?es0\<rparr>"
    using w3 by simp
  have free3: "os_stat (entries w3) q = None"
    using free w3' by simp
  have enc: "encodable (w3\<lparr>entries := e, trace := t\<rparr>) s = encodable w s" for e t s
    by (rule encodable_same_console) (simp add: w3')
  have outcome: "r = Inl IOFailure \<and> w' = w\<lparr>trace := trace w @ ?es0 @ [OpenWrite q]\<rparr>
        \<or> (\<exists>t part. follow MAXSYMLINKS (entries w) q = Some t \<and> entries w t = None
              \<and> r = Inl IOFailure
              \<and> w' = w\<lparr>entries := (entries w)(t \<mapsto> RegularFile (Text part)),
                        trace := trace w @ ?es0 @ [OpenWrite q]\<rparr>)
        \<or> (\<exists>t es1. follow MAXSYMLINKS (entries w) q = Some t \<and> entries w t = None
              \<and> w' = w\<lparr>entries := (entries w)(t \<mapsto> RegularFile (Text (cleaned content))),
                        trace := trace w @ ?es0 @ OpenWrite q # es1\<rparr>
              \<and> written_paths es1 = []
              \<and> (r = Inr () \<and> es1 = report content q \<or> r = Inl UnicodeEncodeError))"
  proof (cases "follow MAXSYMLINKS (entries w) q")
    case None
    have "write_text q (cleaned content) w3
          = (Inl IOFailure, w\<lparr>trace := trace w @ ?es0 @ [OpenWrite q]\<rparr>)"
      unfolding write_text_free [OF free3] using None by (simp add: w3' log_def)
    with run have "r = Inl IOFailure \<and> w' = w\<lparr>trace := trace w @ ?es0 @ [OpenWrite q]\<rparr>"
      unfolding scrub_text [OF isfile] res by auto
    then show ?thesis by blast
  next
    case (Some t)
    with free have tfree: "entries w t = None"
      by (rule follow_free)
    show ?thesis
    proof (cases "on_write w q")
      case Written
      let ?w4 = "w\<lparr>entries := (entries w)(t \<mapsto> RegularFile (Text (cleaned content))),
                    trace := trace w @ ?es0 @ [OpenWrite q]\<rparr>"
      have wr: "write_text q (cleaned content) w3 = (Inr (), ?w4)"
        unfolding write_text_free [OF free3] using Some Written by (simp add: w3' log_def)
      have enc4: "encodable ?w4 s = encodable w s" for s
        by (rule encodable_same_console) simp
      from run have "\<exists>es1. w' = w\<lparr>entries := (entries w)(t \<mapsto> RegularFile (Text (cleaned content))),
                        trace := trace w @ ?es0 @ OpenWrite q # es1\<rparr>
              \<and> written_paths es1 = []
              \<and> (r = Inr () \<and> es1 = report content q \<or> r = Inl UnicodeEncodeError)"
        unfolding scrub_text [OF isfile] res
        by (auto simp: wr enc4 report_def split: if_splits
            intro: exI [of _ "[]"] exI [of _ "butlast (report content q)"])
      with Some tfree show ?thesis by blast
    next
      case OpenRefused
      have "write_text q (cleaned content) w3
            = (Inl IOFailure, w\<lparr>trace := trace w @ ?es0 @ [OpenWrite q]\<rparr>)"
        unfolding write_text_free [OF free3] using Some OpenRefused by (simp add: w3' log_def)
      with run have "r = Inl IOFailure \<and> w' = w\<lparr>trace := trace w @ ?es0 @ [OpenWrite q]\<rparr>"
        unfolding scrub_text [OF isfile] res by auto
      then show ?thesis by blast
    next
      case (Interrupted part)
      have "write_text q (cleaned content) w3
            = (Inl IOFailure, w\<lparr>entries := (entries w)(t \<mapsto> RegularFile (Text part)),
                                  trace := trace w @ ?es0 @ [OpenWrite q]\<rparr>)"
        unfolding write_text_free [OF free3] using Some Interrupted by (simp add: w3' log_def)
      with run have "r = Inl IOFailure
          \<and> w' = w\<lparr>entries := (entries w)(t \<mapsto> RegularFile (Text part)),
                    trace := trace w @ ?es0 @ [OpenWrite q]\<rparr>"
        unfolding scrub_text [OF isfile] res by auto
      with Some tfree show ?thesis by blast
    qed
  qed
  from free es0 which outcome show ?thesis
    by blast
qed

lemma main_two_args: "main [prog, p] w = scrub_invisible p w"
  by (simp add: main_def)

lemma candidate_si: "candidate (p @ lit ''.si'') N = p @ lit ''.si.'' @ str_int N"
  by (simp add: candidate_def lit_def)

lemma strict_prefix_si: "strict_prefix p (p @ lit ''.si'' @ rest)"
  by (simp add: lit_def strict_prefix_def)

lemma example_cleaned: "cleaned [65, 0x00A0, 66] = [65, 66]" "removed_count [65, 0x00A0, 66] = 1"
  by (simp_all add: cleaned_Cons removed_count_Cons cleaned_Nil removed_count_Nil in_INVISIBLE_CHARS)

lemma example_console:
  "stdout_encodes example_world c \<longleftrightarrow> c < 0xD800 \<or> 0xDFFF < c"
  by (simp add: example_world_def)

lemma example_paths_encodable:
  "encodable w (lit ''a.txt.si.2'')" "encodable w (lit ''b.txt.si'')"
  by (simp_all add: lit_def)

lemma example_resolve:
  "get_unique_filename (lit ''a.txt.si'') (example_world\<lparr>trace := t\<rparr>) =
     Some (lit ''a.txt.si.2'',
           example_world\<lparr>trace := t @ [Exists (lit ''a.txt.si''), Exists (lit ''a.txt.si.1''),
                                        Exists (lit ''a.txt.si.2'')]\<rparr>)"
proof -
  let ?w = "example_world\<lparr>trace := t\<rparr>"
  have c1: "candidate (lit ''a.txt.si'') 1 = lit ''a.txt.si.1''"
    and c2: "candidate (lit ''a.txt.si'') 2 = lit ''a.txt.si.2''"
    by (simp_all add: candidate_def str_int_def lit_def)
  have e0: "os_stat (entries ?w) (lit ''a.txt.si'') \<noteq> None"
    and e1: "os_stat (entries ?w) (lit ''a.txt.si.1'') \<noteq> None"
    and e2: "os_stat (entries ?w) (lit ''a.txt.si.2'') = None"
    by (simp_all add: example_eval)
  have "get_unique_filename (lit ''a.txt.si'') ?w
        = get_unique_filename_loop (lit ''a.txt.si'') 1 (log (Exists (lit ''a.txt.si'')) ?w)"
    using e0 by (rule get_unique_filename_taken)
  also have "\<dots> = get_unique_filename_loop (lit ''a.txt.si'') (1 + 1)
        (log (Exists (lit ''a.txt.si.1'')) (log (Exists (lit ''a.txt.si'')) ?w))"
    using e1 by (subst loop_unfold) (auto simp: c1)
  also have "\<dots> = Some (lit ''a.txt.si.2'',
        log (Exists (lit ''a.txt.si.2'')) (log (Exists (lit ''a.txt.si.1'')) (log (Exists (lit ''a.txt.si'')) ?w)))"
    using e2 by (subst loop_unfold) (auto simp: c2)
  finally show ?thesis
    by (simp add: log_def)
qed

lemma example_run:
  "scrub_invisible (lit ''a.txt'') example_world = Some (Inr (), example_final)"
proof -
  have isfile: "os_stat (entries example_world) (lit ''a.txt'') = Some (RegularFile (Text [65, 0x00A0, 66]))"
    by (simp add: example_eval)
  have t: "trace example_world = []"
    by (simp add: example_world_def)
  have wr: "write_text (lit ''a.txt.si.2'') [65, 66] (example_world\<lparr>trace := t\<rparr>) =
     (Inr (), example_world\<lparr>entries := (entries example_world)(lit ''a.txt.si.2'' \<mapsto> RegularFile (Text [65, 66])),
                             trace := t @ [OpenWrite (lit ''a.txt.si.2'')]\<rparr>)" for t
    by (simp add: write_text_def log_def example_eval)
  show ?thesis
    unfolding scrub_text [OF isfile] t
    by (simp add: lit_append [symmetric] example_resolve example_cleaned wr example_console example_paths_encodable
        example_final_def report_def)
qed

lemma example_link_run:
  "scrub_invisible (lit ''b.txt'') example_world = Some (Inr (), example_link_final)"
proof -
  have isfile: "os_stat (entries example_world) (lit ''b.txt'') = Some (RegularFile (Text [65, 0x00A0, 66]))"
    by (simp add: example_eval)
  have t: "trace example_world = []"
    by (simp add: example_world_def)
  have free: "os_stat (entries (example_world\<lparr>trace := t\<rparr>)) (lit ''b.txt.si'') = None" for t
    by (simp add: example_eval)
  have wr: "write_text (lit ''b.txt.si'') [65, 66] (example_world\<lparr>trace := t\<rparr>) =
     (Inr (), example_world\<lparr>entries := (entries example_world)(lit ''elsewhere.txt'' \<mapsto> RegularFile (Text [65, 66])),
                             trace := t @ [OpenWrite (lit ''b.txt.si'')]\<rparr>)" for t
    by (simp add: write_text_def log_def example_eval)
  show ?thesis
    unfolding scrub_text [OF isfile] t
    by (simp add: lit_append [symmetric] get_unique_filename_free [OF free] log_def
        example_cleaned wr example_console example_paths_encodable example_link_final_def report_def)
qed

text \<open>
  Claim C4. A successful run on the input path \<open>p\<close> opens exactly one path for writing.
  It is \<open>p\<close> with the literal \<open>.si\<close> appended when that path is free, and otherwise
  \<open>p.si.N\<close> for the smallest positive \<open>N\<close> whose path is free. After the run that path
  leads to a regular file holding the cleaned text.
\<close>

theorem output_path_suffix:
  assumes "fst (os_path_isfile p w)"
    and "scrub_invisible p w = Some (Inr (), w')"
  shows "\<exists>out content es t. os_stat (entries w) p = Some (RegularFile (Text content))
      \<and> trace w' = trace w @ es \<and> written_paths es = [out]
      \<and> follow MAXSYMLINKS (entries w) out = Some t
      \<and> entries w' t = Some (RegularFile (Text (cleaned content)))
      \<and> os_stat (entries w') out = Some (RegularFile (Text (cleaned content)))
      \<and> (os_stat (entries w) (p @ lit ''.si'') = None \<and> out = p @ lit ''.si''
         \<or> os_stat (entries w) (p @ lit ''.si'') \<noteq> None
           \<and> (\<exists>N\<ge>1. out = p @ lit ''.si.'' @ str_int N \<and> os_stat (entries w) out = None
                \<and> (\<forall>k. 1 \<le> k \<and> k < N \<longrightarrow> os_stat (entries w) (p @ lit ''.si.'' @ str_int k) \<noteq> None)))"
proof -
  from assms(1) obtain d where d: "os_stat (entries w) p = Some (RegularFile d)"
    by (auto simp: isfile_iff)
  show ?thesis
  proof (cases d)
    case Unreadable
    with d assms(2) show ?thesis
      by (simp add: scrub_unreadable)
  next
    case (Text content)
    with d have isfile: "os_stat (entries w) p = Some (RegularFile (Text content))"
      by simp
    from scrub_text_result [OF isfile assms(2)] obtain q es0 where
      free: "os_stat (entries w) q = None" and es0: "written_paths es0 = []"
      and which: "os_stat (entries w) (p @ lit ''.si'') = None \<and> q = p @ lit ''.si''
        \<or> os_stat (entries w) (p @ lit ''.si'') \<noteq> None \<and> (\<exists>N\<ge>1. q = candidate (p @ lit ''.si'') N
            \<and> (\<forall>k. 1 \<le> k \<and> k < N \<longrightarrow> os_stat (entries w) (candidate (p @ lit ''.si'') k) \<noteq> None))"
      and cases: "(Inr () :: error + unit) = Inl IOFailure \<and> w' = w\<lparr>trace := trace w @ es0 @ [OpenWrite q]\<rparr>
        \<or> (\<exists>t part. follow MAXSYMLINKS (entries w) q = Some t \<and> entries w t = None
              \<and> (Inr () :: error + unit) = Inl IOFailure
              \<and> w' = w\<lparr>entries := (entries w)(t \<mapsto> RegularFile (Text part)),
                        trace := trace w @ es0 @ [OpenWrite q]\<rparr>)
        \<or> (\<exists>t es1. follow MAXSYMLINKS (entries w) q = Some t \<and> entries w t = None
              \<and> w' = w\<lparr>entries := (entries w)(t \<mapsto> RegularFile (Text (cleaned content))),
                        trace := trace w @ es0 @ OpenWrite q # es1\<rparr>
              \<and> written_paths es1 = []
              \<and> ((Inr () :: error + unit) = Inr () \<and> es1 = report content q
                 \<or> (Inr () :: error + unit) = Inl UnicodeEncodeError))"
      by blast
    from cases obtain t where
      t: "follow MAXSYMLINKS (entries w) q = Some t" "entries w t = None"
      and w': "w' = w\<lparr>entries := (entries w)(t \<mapsto> RegularFile (Text (cleaned content))),
                      trace := trace w @ es0 @ OpenWrite q # report content q\<rparr>"
      by auto
    let ?es = "es0 @ OpenWrite q # report content q"
    have "written_paths ?es = [q]"
      using es0 by (simp add: written_paths_append)
    moreover have "trace w' = trace w @ ?es"
      and "entries w' t = Some (RegularFile (Text (cleaned content)))"
      using w' by simp_all
    moreover have "os_stat (entries w') q = Some (RegularFile (Text (cleaned content)))"
      using os_stat_create_same [OF t(2,1)] w' by simp
    moreover have "os_stat (entries w) (p @ lit ''.si'') = None \<and> q = p @ lit ''.si''
         \<or> os_stat (entries w) (p @ lit ''.si'') \<noteq> None
           \<and> (\<exists>N\<ge>1. q = p @ lit ''.si.'' @ str_int N \<and> os_stat (entries w) q = None
                \<and> (\<forall>k. 1 \<le> k \<and> k < N \<longrightarrow> os_stat (entries w) (p @ lit ''.si.'' @ str_int k) \<noteq> None))"
      using which free unfolding candidate_si by blast
    ultimately show ?thesis
      using isfile t(1) by blast
  qed
qed

theorem output_path_suffix_witness:
  "scrub_invisible (lit ''a.txt'') example_world = Some (Inr (), example_final)
   \<and> (\<exists>out. written_paths (trace example_final) = [out]
         \<and> os_stat (entries example_final) out = Some (RegularFile (Text [65, 66]))
         \<and> (\<exists>N\<ge>1. out = lit ''a.txt'' @ lit ''.si.'' @ str_int N))
   \<and> scrub_invisible (lit ''b.txt'') example_world = Some (Inr (), example_link_final)
   \<and> written_paths (trace example_link_final) = [lit ''b.txt'' @ lit ''.si'']
   \<and> os_stat (entries example_link_final) (lit ''b.txt'' @ lit ''.si'') = Some (RegularFile (Text [65, 66]))"
proof -
  have isfile: "fst (os_path_isfile (lit ''a.txt'') example_world)"
    "fst (os_path_isfile (lit ''b.txt'') example_world)"
    by (simp_all add: os_path_isfile_def example_eval)
  have a: "os_stat (entries example_world) (lit ''a.txt'') = Some (RegularFile (Text [65, 0x00A0, 66]))"
    and b: "os_stat (entries example_world) (lit ''b.txt'') = Some (RegularFile (Text [65, 0x00A0, 66]))"
    by (simp_all add: example_eval)
  have taken: "os_stat (entries example_world) (lit ''a.txt'' @ lit ''.si'') \<noteq> None"
    and free: "os_stat (entries example_world) (lit ''b.txt'' @ lit ''.si'') = None"
    by (simp_all add: example_eval)
  have t: "trace example_world = []"
    by (simp add: example_world_def)
  from output_path_suffix [OF isfile(1) example_run] a taken t example_cleaned(1)
  have "\<exists>out. written_paths (trace example_final) = [out]
         \<and> os_stat (entries example_final) out = Some (RegularFile (Text [65, 66]))
         \<and> (\<exists>N\<ge>1. out = lit ''a.txt'' @ lit ''.si.'' @ str_int N)"
    by fastforce
  moreover from output_path_suffix [OF isfile(2) example_link_run] b free t example_cleaned(1)
  have "written_paths (trace example_link_final) = [lit ''b.txt'' @ lit ''.si'']
      \<and> os_stat (entries example_link_final) (lit ''b.txt'' @ lit ''.si'') = Some (RegularFile (Text [65, 66]))"
    by fastforce
  ultimately show ?thesis
    using example_run example_link_run by blast
qed

text \<open>
  Claim C5, as stated, at a path the console cannot encode: the input does not exist, the
  error message embeds the path, and \<open>print\<close> raises instead of returning.
\<close>

theorem invalid_input_counterexample:
  "\<not> fst (os_path_isfile [0xDCFF] example_world)
   \<and> scrub_invisible [0xDCFF] example_world =
       Some (Inl UnicodeEncodeError, example_world\<lparr>trace := [IsFile [0xDCFF]]\<rparr>)"
proof -
  have notfile: "\<not> fst (os_path_isfile [0xDCFF] example_world)"
    by (simp add: os_path_isfile_def example_eval)
  have "\<not> encodable example_world [0xDCFF]"
    by (simp add: example_console)
  with scrub_invalid [OF notfile] notfile show ?thesis
    by (simp add: example_world_def)
qed

text \<open>
  Claim C5, amended. When the input path is not an existing regular file, the operation
  makes the one \<open>isfile\<close> test, opens nothing and leaves the filesystem as it was. If the
  console can encode the path, it prints the error message, which names the path, and
  returns normally; if not, \<open>print\<close> raises \<open>UnicodeEncodeError\<close>, which propagates.
\<close>

theorem invalid_input_aborts:
  assumes "\<not> fst (os_path_isfile p w)"
  shows "scrub_invisible p w =
     (if encodable w p
      then Some (Inr (), w\<lparr>trace := trace w @ [IsFile p, Print (error_message p)]\<rparr>)
      else Some (Inl UnicodeEncodeError, w\<lparr>trace := trace w @ [IsFile p]\<rparr>))
     \<and> main [prog, p] w = scrub_invisible p w
     \<and> sublist (lit ''Error: '') (error_message p) \<and> sublist p (error_message p)
     \<and> sublist (lit '' does not exist.'') (error_message p)"
proof -
  have "sublist (lit ''Error: '') (error_message p)"
    unfolding error_message_def sublist_def by (intro exI [of _ RED] exI) simp
  moreover have "sublist p (error_message p)"
    unfolding error_message_def sublist_def
    by (intro exI [of _ "RED @ lit ''Error: '' @ [39] @ CYAN"] exI) simp
  moreover have "sublist (lit '' does not exist.'') (error_message p)"
    unfolding error_message_def sublist_def
    by (intro exI [of _ "RED @ lit ''Error: '' @ [39] @ CYAN @ p @ RED @ [39]"] exI [of _ RESET]) simp
  ultimately show ?thesis
    using scrub_invalid [OF assms] by (simp add: main_two_args)
qed

theorem invalid_input_aborts_witness:
  "scrub_invisible (lit ''missing.txt'') example_world =
     Some (Inr (), example_world\<lparr>trace := [IsFile (lit ''missing.txt''),
                                              Print (error_message (lit ''missing.txt''))]\<rparr>)
   \<and> scrub_invisible (lit ''a.txt.si.1'') example_world =
     Some (Inr (), example_world\<lparr>trace := [IsFile (lit ''a.txt.si.1''),
                                              Print (error_message (lit ''a.txt.si.1''))]\<rparr>)
   \<and> scrub_invisible [0xDCFF] example_world =
     Some (Inl UnicodeEncodeError, example_world\<lparr>trace := [IsFile [0xDCFF]]\<rparr>)"
proof -
  have notfile: "\<not> fst (os_path_isfile (lit ''missing.txt'') example_world)"
    "\<not> fst (os_path_isfile (lit ''a.txt.si.1'') example_world)"
    "\<not> fst (os_path_isfile [0xDCFF] example_world)"
    by (simp_all add: os_path_isfile_def example_eval)
  have enc: "encodable example_world (lit ''missing.txt'')"
    "encodable example_world (lit ''a.txt.si.1'')"
    "\<not> encodable example_world [0xDCFF]"
    by (simp_all add: lit_def example_console)
  have t: "trace example_world = []"
    by (simp add: example_world_def)
  from invalid_input_aborts [OF notfile(1)] invalid_input_aborts [OF notfile(2)]
    invalid_input_aborts [OF notfile(3)] enc
  show ?thesis
    by (simp add: t)
qed

text \<open>
  Claim C8. When the number of command-line arguments is not one, the program prints the
  usage line \<open>Usage: python scrub_invisible.py <file_path>\<close> and does nothing else: the trace
  gains that one print, no filesystem call is made and the filesystem is as before.
\<close>

theorem usage_without_io:
  assumes "length (tl argv) \<noteq> 1"
  shows "\<exists>w'. main argv w = Some (Inr (), w') \<and> entries w' = entries w
     \<and> trace w' = trace w @ [Print (lit ''Usage: python scrub_invisible.py <file_path>'')]
     \<and> filter is_file_io (trace w') = filter is_file_io (trace w)"
proof -
  from assms have "length argv \<noteq> 2"
    by (cases argv) auto
  then have "main argv w
      = Some (Inr (), w\<lparr>trace := trace w @ [Print (lit ''Usage: python scrub_invisible.py <file_path>'')]\<rparr>)"
    by (simp add: main_def print_def log_def) (simp add: usage_message_def)
  then show ?thesis
    by simp
qed

theorem usage_without_io_witness:
  "(\<exists>w'. main [lit ''scrub_invisible.py''] example_world = Some (Inr (), w')
       \<and> entries w' = entries example_world
       \<and> trace w' = [Print (lit ''Usage: python scrub_invisible.py <file_path>'')])
   \<and> (\<exists>w'. main [lit ''scrub_invisible.py'', lit ''a.txt'', lit ''b.txt''] example_world = Some (Inr (), w')
       \<and> entries w' = entries example_world
       \<and> trace w' = [Print (lit ''Usage: python scrub_invisible.py <file_path>'')])"
proof -
  have t: "trace example_world = []"
    by (simp add: example_world_def)
  from usage_without_io [of "[lit ''scrub_invisible.py'']" example_world]
    usage_without_io [of "[lit ''scrub_invisible.py'', lit ''a.txt'', lit ''b.txt'']" example_world]
  show ?thesis
    by (simp add: t) blast
qed

lemma scrub_not_text_result:
  assumes "\<forall>content. os_stat (entries w) p \<noteq> Some (RegularFile (Text content))"
    and "scrub_invisible p w = Some (r, w')"
  shows "\<exists>es. w' = w\<lparr>trace := trace w @ es\<rparr> \<and> written_paths es = []"
proof (cases "fst (os_path_isfile p w)")
  case False
  from assms(2) have "w' = w\<lparr>trace := trace w @ [IsFile p, Print (error_message p)]\<rparr>
      \<or> w' = w\<lparr>trace := trace w @ [IsFile p]\<rparr>"
    unfolding scrub_invalid [OF False] by (auto split: if_splits)
  moreover have "written_paths [IsFile p, Print (error_message p)] = []"
    and "written_paths [IsFile p] = []"
    by simp_all
  ultimately show ?thesis
    by blast
next
  case True
  then obtain d where "os_stat (entries w) p = Some (RegularFile d)"
    by (auto simp: isfile_iff)
  with assms(1) have "os_stat (entries w) p = Some (RegularFile Unreadable)"
    by (cases d) simp_all
  with assms(2) have "w' = w\<lparr>trace := trace w @ [IsFile p, OpenRead p]\<rparr>"
    by (simp add: scrub_unreadable)
  moreover have "written_paths [IsFile p, OpenRead p] = []"
    by simp
  ultimately show ?thesis
    by blast
qed

text \<open>
  Claim C10. A run of the program on the input path \<open>p\<close> leaves the input as it was:
  the entry at \<open>p\<close> and the file that \<open>p\<close> leads to are unchanged. The run opens at most
  one path for writing, the resolved output path, which is \<open>p.si\<close> or \<open>p.si.N\<close>, a
  proper extension of \<open>p\<close> and so different from \<open>p\<close>; when it opens none, the filesystem
  is as before.
\<close>

theorem input_file_unmodified:
  assumes "main [prog, p] w = Some (r, w')"
  shows "entries w' p = entries w p \<and> os_stat (entries w') p = os_stat (entries w) p
     \<and> (\<exists>es. trace w' = trace w @ es
          \<and> (written_paths es = [] \<and> entries w' = entries w
             \<or> (\<exists>q. written_paths es = [q] \<and> q \<noteq> p \<and> strict_prefix p q
                  \<and> (q = p @ lit ''.si'' \<or> (\<exists>N\<ge>1. q = p @ lit ''.si.'' @ str_int N)))))"
proof -
  from assms have run: "scrub_invisible p w = Some (r, w')"
    by (simp add: main_two_args)
  show ?thesis
  proof (cases "\<exists>content. os_stat (entries w) p = Some (RegularFile (Text content))")
    case False
    then have "\<forall>content. os_stat (entries w) p \<noteq> Some (RegularFile (Text content))"
      by simp
    from scrub_not_text_result [OF this run] obtain es where
      "w' = w\<lparr>trace := trace w @ es\<rparr>" "written_paths es = []"
      by blast
    then have "entries w' = entries w" "trace w' = trace w @ es" "written_paths es = []"
      by simp_all
    then show ?thesis
      by metis
  next
    case True
    then obtain content where isfile: "os_stat (entries w) p = Some (RegularFile (Text content))"
      by blast
    then have exists: "os_stat (entries w) p \<noteq> None"
      by simp
    then have entry: "entries w p \<noteq> None"
      by (rule os_stat_entry)
    from scrub_text_result [OF isfile run] obtain q es0 where
      free: "os_stat (entries w) q = None" and es0: "written_paths es0 = []"
      and which: "os_stat (entries w) (p @ lit ''.si'') = None \<and> q = p @ lit ''.si''
        \<or> os_stat (entries w) (p @ lit ''.si'') \<noteq> None \<and> (\<exists>N\<ge>1. q = candidate (p @ lit ''.si'') N
            \<and> (\<forall>k. 1 \<le> k \<and> k < N \<longrightarrow> os_stat (entries w) (candidate (p @ lit ''.si'') k) \<noteq> None))"
      and outcome: "r = Inl IOFailure \<and> w' = w\<lparr>trace := trace w @ es0 @ [OpenWrite q]\<rparr>
        \<or> (\<exists>t part. follow MAXSYMLINKS (entries w) q = Some t \<and> entries w t = None
              \<and> r = Inl IOFailure
              \<and> w' = w\<lparr>entries := (entries w)(t \<mapsto> RegularFile (Text part)),
                        trace := trace w @ es0 @ [OpenWrite q]\<rparr>)
        \<or> (\<exists>t es1. follow MAXSYMLINKS (entries w) q = Some t \<and> entries w t = None
              \<and> w' = w\<lparr>entries := (entries w)(t \<mapsto> RegularFile (Text (cleaned content))),
                        trace := trace w @ es0 @ OpenWrite q # es1\<rparr>
              \<and> written_paths es1 = []
              \<and> (r = Inr () \<and> es1 = report content q \<or> r = Inl UnicodeEncodeError))"
      by blast
    from free exists have neq: "q \<noteq> p"
      by auto
    from which have shape: "q = p @ lit ''.si'' \<or> (\<exists>N\<ge>1. q = p @ lit ''.si.'' @ str_int N)"
      unfolding candidate_si by blast
    then have ext: "strict_prefix p q"
      using strict_prefix_si [of p "[]"] strict_prefix_si [of p "lit ''.'' @ str_int N" for N]
      by (auto simp: lit_def)
    from outcome have outcome': "w' = w\<lparr>trace := trace w @ es0 @ [OpenWrite q]\<rparr>
        \<or> (\<exists>t part. entries w t = None
              \<and> w' = w\<lparr>entries := (entries w)(t \<mapsto> RegularFile (Text part)),
                        trace := trace w @ es0 @ [OpenWrite q]\<rparr>)
        \<or> (\<exists>t es1. entries w t = None \<and> written_paths es1 = []
              \<and> w' = w\<lparr>entries := (entries w)(t \<mapsto> RegularFile (Text (cleaned content))),
                        trace := trace w @ es0 @ OpenWrite q # es1\<rparr>)"
      by blast
    from outcome' obtain es where tr: "trace w' = trace w @ es" and wp: "written_paths es = [q]"
      and same: "entries w' = entries w
          \<or> (\<exists>t d. entries w t = None \<and> entries w' = (entries w)(t \<mapsto> RegularFile d))"
    proof (elim disjE conjE exE)
      assume "w' = w\<lparr>trace := trace w @ es0 @ [OpenWrite q]\<rparr>"
      then show ?thesis
        using es0 by (intro that [of "es0 @ [OpenWrite q]"]) (simp_all add: written_paths_append)
    next
      fix t part
      assume "entries w t = None"
        and "w' = w\<lparr>entries := (entries w)(t \<mapsto> RegularFile (Text part)),
                    trace := trace w @ es0 @ [OpenWrite q]\<rparr>"
      then show ?thesis
        using es0 by (intro that [of "es0 @ [OpenWrite q]"]) (auto simp: written_paths_append)
    next
      fix t es1
      assume "entries w t = None" and "written_paths es1 = []"
        and "w' = w\<lparr>entries := (entries w)(t \<mapsto> RegularFile (Text (cleaned content))),
                    trace := trace w @ es0 @ OpenWrite q # es1\<rparr>"
      then show ?thesis
        using es0 by (intro that [of "es0 @ OpenWrite q # es1"]) (auto simp: written_paths_append)
    qed
    from same have "entries w' p = entries w p \<and> os_stat (entries w') p = os_stat (entries w) p"
    proof (elim disjE exE conjE)
      assume "entries w' = entries w"
      then show ?thesis by simp
    next
      fix t d
      assume t: "entries w t = None" and w': "entries w' = (entries w)(t \<mapsto> RegularFile d)"
      from t entry have "t \<noteq> p" by auto
      with w' os_stat_create_other [OF t exists, of d] show ?thesis
        by simp
    qed
    with tr wp neq ext shape show ?thesis
      by blast
  qed
qed

theorem input_file_unmodified_witness:
  "main [lit ''scrub_invisible.py'', lit ''b.txt''] example_world = Some (Inr (), example_link_final)
   \<and> entries example_link_final (lit ''b.txt'') = Some (RegularFile (Text [65, 0x00A0, 66]))
   \<and> os_stat (entries example_link_final) (lit ''b.txt'') = Some (RegularFile (Text [65, 0x00A0, 66]))"
proof -
  have run: "main [lit ''scrub_invisible.py'', lit ''b.txt''] example_world = Some (Inr (), example_link_final)"
    by (simp add: main_two_args example_link_run)
  have "entries example_world (lit ''b.txt'') = Some (RegularFile (Text [65, 0x00A0, 66]))"
    and "os_stat (entries example_world) (lit ''b.txt'') = Some (RegularFile (Text [65, 0x00A0, 66]))"
    by (simp_all add: example_eval)
  with input_file_unmodified [OF run] run show ?thesis
    by simp
qed

end
